theory Spec2Isabelle
  imports Main
begin

section \<open>The toaster state machine of Source/Toaster.ts\<close>

text \<open>
  The program is a context class \<open>Toaster\<close> holding a reference \<open>_state\<close> to a state
  object, an abstract class \<open>ToasterState\<close> whose four methods all throw
  \<open>Error("Invalid operation")\<close>, and four subclasses that each override one method and
  return a freshly allocated object of the next state's class.

  Objects live in an explicit store, since the program allocates with \<open>new\<close> and assigns
  references: a reference is the index of the object in the store of its type.
\<close>

subsection \<open>Data\<close>

type_synonym ref = nat

text \<open>
  The classes of the state hierarchy. \<open>ToasterState\<close> is the abstract base class; the
  source never instantiates it.
\<close>

datatype cls =
  ToasterState | IdleState | BreadInsertedState | ToastingState | BreadEjectedState

text \<open>
  \<open>Error m\<close> is \<open>new Error(m)\<close>, kept by what the program passes to it: the message. The
  stack trace that a JavaScript engine records in the object when it is constructed is
  not part of the model, so nothing here says what a thrown error does or does not
  reveal beyond its message. \<open>TypeError\<close> is what the JavaScript runtime throws when a
  member is read from a value that is not an object; the model returns it where a
  reference is not allocated.
\<close>

datatype error = Error string | TypeError

text \<open>
  The four members of \<open>interface ToasterOperations\<close>.
\<close>

datatype operation = InsertBread | PullLever | EjectBread | RemoveBread

text \<open>
  The store: the state objects allocated so far (an object has no field, so it is its
  class), the \<open>Toaster\<close> objects allocated so far (each is its \<open>_state\<close> field), and
  what \<open>console.log\<close> has printed, oldest first (the class of the object printed, or
  \<open>None\<close> for \<open>undefined\<close>).
\<close>

record world =
  states :: "cls list"
  toasters :: "ref list"
  console :: "cls option list"

definition lookup :: "'a list \<Rightarrow> ref \<Rightarrow> 'a option" where
  "lookup xs r = (if r < length xs then Some (xs ! r) else None)"

definition empty_world :: world where
  "empty_world = \<lparr>states = [], toasters = [], console = []\<rparr>"

subsection \<open>The state classes\<close>

text \<open>
  \<open>new C()\<close> for a state class \<open>C\<close>: the object is appended to the store and its
  reference returned.
\<close>

definition new_state :: "cls \<Rightarrow> world \<Rightarrow> ref \<times> world" where
  "new_state c w = (length (states w), w\<lparr>states := states w @ [c]\<rparr>)"

text \<open>
  The methods of the abstract class \<open>ToasterState\<close> (lines 44 to 57).
\<close>

definition ToasterState_insertBread :: "world \<Rightarrow> (error + ref) \<times> world" where
  "ToasterState_insertBread w = (Inl (Error ''Invalid operation''), w)"

definition ToasterState_pullLever :: "world \<Rightarrow> (error + ref) \<times> world" where
  "ToasterState_pullLever w = (Inl (Error ''Invalid operation''), w)"

definition ToasterState_ejectBread :: "world \<Rightarrow> (error + ref) \<times> world" where
  "ToasterState_ejectBread w = (Inl (Error ''Invalid operation''), w)"

definition ToasterState_removeBread :: "world \<Rightarrow> (error + ref) \<times> world" where
  "ToasterState_removeBread w = (Inl (Error ''Invalid operation''), w)"

text \<open>
  The overriding methods of the four subclasses (lines 58 to 77).
\<close>

definition IdleState_insertBread :: "world \<Rightarrow> (error + ref) \<times> world" where
  "IdleState_insertBread w =
     (case new_state BreadInsertedState w of (r, w') \<Rightarrow> (Inr r, w'))"

definition BreadInsertedState_pullLever :: "world \<Rightarrow> (error + ref) \<times> world" where
  "BreadInsertedState_pullLever w =
     (case new_state ToastingState w of (r, w') \<Rightarrow> (Inr r, w'))"

definition ToastingState_ejectBread :: "world \<Rightarrow> (error + ref) \<times> world" where
  "ToastingState_ejectBread w =
     (case new_state BreadEjectedState w of (r, w') \<Rightarrow> (Inr r, w'))"

definition BreadEjectedState_removeBread :: "world \<Rightarrow> (error + ref) \<times> world" where
  "BreadEjectedState_removeBread w =
     (case new_state IdleState w of (r, w') \<Rightarrow> (Inr r, w'))"

text \<open>
  Method resolution by the class of the receiver: the subclass's override where it has
  one, the inherited method of \<open>ToasterState\<close> otherwise.
\<close>

fun insertBread :: "cls \<Rightarrow> world \<Rightarrow> (error + ref) \<times> world" where
  "insertBread IdleState w = IdleState_insertBread w"
| "insertBread c w = ToasterState_insertBread w"

fun pullLever :: "cls \<Rightarrow> world \<Rightarrow> (error + ref) \<times> world" where
  "pullLever BreadInsertedState w = BreadInsertedState_pullLever w"
| "pullLever c w = ToasterState_pullLever w"

fun ejectBread :: "cls \<Rightarrow> world \<Rightarrow> (error + ref) \<times> world" where
  "ejectBread ToastingState w = ToastingState_ejectBread w"
| "ejectBread c w = ToasterState_ejectBread w"

fun removeBread :: "cls \<Rightarrow> world \<Rightarrow> (error + ref) \<times> world" where
  "removeBread BreadEjectedState w = BreadEjectedState_removeBread w"
| "removeBread c w = ToasterState_removeBread w"

text \<open>
  A method call \<open>s.op()\<close> on a reference \<open>s\<close> to a state object.
\<close>

definition call :: "(cls \<Rightarrow> world \<Rightarrow> (error + ref) \<times> world) \<Rightarrow> ref \<Rightarrow> world
    \<Rightarrow> (error + ref) \<times> world" where
  "call m s w = (case lookup (states w) s of None \<Rightarrow> (Inl TypeError, w) | Some c \<Rightarrow> m c w)"

fun state_method :: "operation \<Rightarrow> cls \<Rightarrow> world \<Rightarrow> (error + ref) \<times> world" where
  "state_method InsertBread = insertBread"
| "state_method PullLever = pullLever"
| "state_method EjectBread = ejectBread"
| "state_method RemoveBread = removeBread"

subsection \<open>The class Toaster\<close>

text \<open>
  The class of the object that \<open>this._state\<close> refers to, for the \<open>Toaster\<close> at \<open>this\<close>.
\<close>

definition current_state :: "world \<Rightarrow> ref \<Rightarrow> cls option" where
  "current_state w this =
     (case lookup (toasters w) this of None \<Rightarrow> None | Some s \<Rightarrow> lookup (states w) s)"

text \<open>
  \<open>logCurrentState\<close> (lines 30 to 32): \<open>console.log(this._state)\<close>.
\<close>

definition logCurrentState :: "ref \<Rightarrow> world \<Rightarrow> world" where
  "logCurrentState this w = w\<lparr>console := console w @ [current_state w this]\<rparr>"

text \<open>
  The assignment \<open>this._state = s\<close>.
\<close>

definition set_state :: "ref \<Rightarrow> ref \<Rightarrow> world \<Rightarrow> world" where
  "set_state this s w = w\<lparr>toasters := (toasters w)[this := s]\<rparr>"

text \<open>
  Construction (lines 7 to 11): the field initialiser allocates a new \<open>IdleState\<close>, then
  the constructor body logs the state. The result is the reference to the new \<open>Toaster\<close>.
\<close>

definition Toaster_new :: "world \<Rightarrow> ref \<times> world" where
  "Toaster_new w =
     (case new_state IdleState w of
        (s, w1) \<Rightarrow>
          let this = length (toasters w1);
              w2 = w1\<lparr>toasters := toasters w1 @ [s]\<rparr>
          in (this, logCurrentState this w2))"

text \<open>
  The four public methods (lines 13 to 28). The right-hand side of the assignment is
  evaluated first; when it throws, neither the assignment nor the logging happens.
\<close>

definition Toaster_insertBread :: "ref \<Rightarrow> world \<Rightarrow> (error + unit) \<times> world" where
  "Toaster_insertBread this w =
     (case lookup (toasters w) this of
        None \<Rightarrow> (Inl TypeError, w)
      | Some s \<Rightarrow>
          (case call insertBread s w of
             (Inl e, w') \<Rightarrow> (Inl e, w')
           | (Inr s', w') \<Rightarrow> (Inr (), logCurrentState this (set_state this s' w'))))"

definition Toaster_pullLever :: "ref \<Rightarrow> world \<Rightarrow> (error + unit) \<times> world" where
  "Toaster_pullLever this w =
     (case lookup (toasters w) this of
        None \<Rightarrow> (Inl TypeError, w)
      | Some s \<Rightarrow>
          (case call pullLever s w of
             (Inl e, w') \<Rightarrow> (Inl e, w')
           | (Inr s', w') \<Rightarrow> (Inr (), logCurrentState this (set_state this s' w'))))"

definition Toaster_ejectBread :: "ref \<Rightarrow> world \<Rightarrow> (error + unit) \<times> world" where
  "Toaster_ejectBread this w =
     (case lookup (toasters w) this of
        None \<Rightarrow> (Inl TypeError, w)
      | Some s \<Rightarrow>
          (case call ejectBread s w of
             (Inl e, w') \<Rightarrow> (Inl e, w')
           | (Inr s', w') \<Rightarrow> (Inr (), logCurrentState this (set_state this s' w'))))"

definition Toaster_removeBread :: "ref \<Rightarrow> world \<Rightarrow> (error + unit) \<times> world" where
  "Toaster_removeBread this w =
     (case lookup (toasters w) this of
        None \<Rightarrow> (Inl TypeError, w)
      | Some s \<Rightarrow>
          (case call removeBread s w of
             (Inl e, w') \<Rightarrow> (Inl e, w')
           | (Inr s', w') \<Rightarrow> (Inr (), logCurrentState this (set_state this s' w'))))"

text \<open>
  A caller invoking one of the four operations on a \<open>Toaster\<close>.
\<close>

fun invoke :: "operation \<Rightarrow> ref \<Rightarrow> world \<Rightarrow> (error + unit) \<times> world" where
  "invoke InsertBread = Toaster_insertBread"
| "invoke PullLever = Toaster_pullLever"
| "invoke EjectBread = Toaster_ejectBread"
| "invoke RemoveBread = Toaster_removeBread"

text \<open>
  A caller invoking a sequence of operations, as the script at the end of the source file
  does: an uncaught exception ends the script.
\<close>

fun run :: "operation list \<Rightarrow> ref \<Rightarrow> world \<Rightarrow> (error + unit) \<times> world" where
  "run [] this w = (Inr (), w)"
| "run (x # xs) this w =
     (case invoke x this w of
        (Inl e, w') \<Rightarrow> (Inl e, w')
      | (Inr u, w') \<Rightarrow> run xs this w')"

subsection \<open>The transition table of the specification\<close>

text \<open>
  The table as the specification writes it: four edges, every other pair not permitted.
\<close>

fun table :: "cls \<Rightarrow> operation \<Rightarrow> cls option" where
  "table IdleState InsertBread = Some BreadInsertedState"
| "table BreadInsertedState PullLever = Some ToastingState"
| "table ToastingState EjectBread = Some BreadEjectedState"
| "table BreadEjectedState RemoveBread = Some IdleState"
| "table s x = None"

text \<open>
  The four concrete variants.
\<close>

fun concrete :: "cls \<Rightarrow> bool" where
  "concrete ToasterState = False"
| "concrete c = True"

subsection \<open>Callers and observations used in the statements\<close>

text \<open>
  The sequence the script runs on its first \<open>Toaster\<close> (lines 82 to 85), and what the
  console shows for one pass through it.
\<close>

definition full_cycle :: "operation list" where
  "full_cycle = [InsertBread, PullLever, EjectBread, RemoveBread]"

definition cycle_log :: "cls option list" where
  "cycle_log =
     [Some BreadInsertedState, Some ToastingState, Some BreadEjectedState, Some IdleState]"

text \<open>
  The cycle of the specification, in order, and the four operations.
\<close>

definition cycle_order :: "cls list" where
  "cycle_order = [IdleState, BreadInsertedState, ToastingState, BreadEjectedState]"

definition operations :: "operation list" where
  "operations = [InsertBread, PullLever, EjectBread, RemoveBread]"

text \<open>
  An operation is permitted on a \<open>Toaster\<close> when the call returns; it is rejected when the
  call throws \<open>Error("Invalid operation")\<close> and leaves the world as it was.
\<close>

definition permitted :: "world \<Rightarrow> ref \<Rightarrow> operation \<Rightarrow> bool" where
  "permitted w this x \<longleftrightarrow> fst (invoke x this w) = Inr ()"

definition rejected :: "world \<Rightarrow> ref \<Rightarrow> operation \<Rightarrow> bool" where
  "rejected w this x \<longleftrightarrow> invoke x this w = (Inl (Error ''Invalid operation''), w)"

text \<open>
  The worlds a program can be in: it starts with nothing allocated, constructs
  \<open>Toaster\<close>s and invokes operations on them; the world after an operation that
  throws is one of them too.
\<close>

inductive reachable :: "world \<Rightarrow> bool" where
  start: "reachable empty_world"
| construct: "reachable w \<Longrightarrow> reachable (snd (Toaster_new w))"
| operate: "reachable w \<Longrightarrow> reachable (snd (invoke x this w))"

text \<open>
  The \<open>_state\<close> field of the \<open>Toaster\<close> at \<open>this\<close> refers to an allocated object of one of
  the four subclasses; and so for every \<open>Toaster\<close> of the world.
\<close>

definition holds_concrete :: "world \<Rightarrow> ref \<Rightarrow> bool" where
  "holds_concrete w this =
     (case current_state w this of None \<Rightarrow> False | Some c \<Rightarrow> concrete c)"

definition all_concrete :: "world \<Rightarrow> bool" where
  "all_concrete w = list_all (holds_concrete w) [0 ..< length (toasters w)]"

text \<open>
  Two \<open>Toaster\<close>s constructed one after the other, as \<open>toaster\<close> and \<open>toaster2\<close> of the
  script are.
\<close>

definition two_toasters :: "world \<Rightarrow> ref \<times> ref \<times> world" where
  "two_toasters w =
     (case Toaster_new w of
        (a, w1) \<Rightarrow> (case Toaster_new w1 of (b, w2) \<Rightarrow> (a, b, w2)))"

text \<open>
  A world to evaluate on: one \<open>Toaster\<close>, just constructed, at reference 0.
\<close>

definition one_toaster :: world where
  "one_toaster = snd (Toaster_new empty_world)"

subsection \<open>Auxiliary notions for the proofs\<close>

text \<open>
  The world after a successful transition of the \<open>Toaster\<close> at \<open>this\<close> to class \<open>t\<close>.
\<close>

definition moved :: "ref \<Rightarrow> cls \<Rightarrow> world \<Rightarrow> world" where
  "moved this t w =
     w\<lparr>states := states w @ [t],
       toasters := (toasters w)[this := length (states w)],
       console := console w @ [Some t]\<rparr>"

text \<open>
  What calls on the \<open>Toaster\<close> at \<open>a\<close> leave alone: the state objects allocated before are
  still there, no \<open>Toaster\<close> appears or disappears, and the field of every other
  \<open>Toaster\<close> is as it was.
\<close>

definition frame :: "ref \<Rightarrow> world \<Rightarrow> world \<Rightarrow> bool" where
  "frame a w w' \<longleftrightarrow>
     (\<exists>ys. states w' = states w @ ys) \<and>
     length (toasters w') = length (toasters w) \<and>
     (\<forall>b. b \<noteq> a \<longrightarrow> lookup (toasters w') b = lookup (toasters w) b)"

section \<open>Lemmas\<close>

subsection \<open>The code against the table\<close>

lemmas base_defs =
  ToasterState_insertBread_def ToasterState_pullLever_def
  ToasterState_ejectBread_def ToasterState_removeBread_def

lemmas override_defs =
  IdleState_insertBread_def BreadInsertedState_pullLever_def
  ToastingState_ejectBread_def BreadEjectedState_removeBread_def

lemma state_method_table:
  "state_method x c w =
     (case table c x of
        None \<Rightarrow> (Inl (Error ''Invalid operation''), w)
      | Some c' \<Rightarrow> (Inr (length (states w)), w\<lparr>states := states w @ [c']\<rparr>))"
  by (cases x; cases c) (simp_all add: base_defs override_defs new_state_def)

lemma invoke_unfold:
  "invoke x this w =
     (case lookup (toasters w) this of
        None \<Rightarrow> (Inl TypeError, w)
      | Some s \<Rightarrow>
          (case call (state_method x) s w of
             (Inl e, w') \<Rightarrow> (Inl e, w')
           | (Inr s', w') \<Rightarrow> (Inr (), logCurrentState this (set_state this s' w'))))"
  by (cases x)
    (simp_all add: Toaster_insertBread_def Toaster_pullLever_def
      Toaster_ejectBread_def Toaster_removeBread_def split: option.split)

text \<open>
  From here on the operations are read through the two lemmas above.
\<close>

declare invoke.simps [simp del] state_method.simps [simp del]

subsection \<open>Reading the store\<close>

lemma lookup_append_last: "lookup (xs @ [v]) (length xs) = Some v"
  by (simp add: lookup_def)

lemma lookup_append_old: "lookup xs r = Some v \<Longrightarrow> lookup (xs @ ys) r = Some v"
  by (simp add: lookup_def nth_append split: if_splits)

lemma lookup_fresh: "lookup xs (length xs) = None"
  by (simp add: lookup_def)

lemma lookup_update_same: "lookup xs i = Some u \<Longrightarrow> lookup (xs[i := v]) i = Some v"
  by (simp add: lookup_def split: if_splits)

lemma lookup_update_other: "i \<noteq> j \<Longrightarrow> lookup (xs[i := v]) j = lookup xs j"
  by (simp add: lookup_def)

subsection \<open>What one operation does to the store\<close>

lemma call_table:
  "lookup (states w) s = Some c \<Longrightarrow>
   call (state_method x) s w =
     (case table c x of
        None \<Rightarrow> (Inl (Error ''Invalid operation''), w)
      | Some t \<Rightarrow> (Inr (length (states w)), w\<lparr>states := states w @ [t]\<rparr>))"
  by (simp add: call_def state_method_table)

lemma invoke_unallocated:
  "current_state w this = None \<Longrightarrow> invoke x this w = (Inl TypeError, w)"
  by (auto simp: invoke_unfold current_state_def call_def split: option.splits)

lemma invoke_undefined:
  "current_state w this = Some c \<Longrightarrow> table c x = None \<Longrightarrow>
   invoke x this w = (Inl (Error ''Invalid operation''), w)"
  by (auto simp: invoke_unfold current_state_def call_table split: option.splits)

lemma invoke_defined:
  assumes "current_state w this = Some c" and "table c x = Some t"
  shows "invoke x this w = (Inr (), moved this t w)"
proof -
  from assms(1) obtain s where s: "lookup (toasters w) this = Some s"
    and c: "lookup (states w) s = Some c"
    by (auto simp: current_state_def split: option.splits)
  have "current_state (set_state this (length (states w)) (w\<lparr>states := states w @ [t]\<rparr>)) this
      = Some t"
    using s by (simp add: current_state_def set_state_def lookup_update_same lookup_append_last)
  then show ?thesis
    using s c assms(2)
    by (simp add: invoke_unfold call_table logCurrentState_def set_state_def moved_def)
qed

lemma current_state_moved_same:
  "current_state w this = Some c \<Longrightarrow> current_state (moved this t w) this = Some t"
  by (auto simp: current_state_def moved_def lookup_update_same lookup_append_last
      split: option.splits)

lemma current_state_moved_other:
  "a \<noteq> b \<Longrightarrow> current_state w b = Some c \<Longrightarrow> current_state (moved a t w) b = Some c"
  by (auto simp: current_state_def moved_def lookup_update_other lookup_append_old
      split: option.splits)

lemma console_moved: "console (moved a t w) = console w @ [Some t]"
  by (simp add: moved_def)

lemma invoke_cases:
  obtains (unallocated) "current_state w this = None" "invoke x this w = (Inl TypeError, w)"
  | (undefined) c where "current_state w this = Some c" "table c x = None"
      "invoke x this w = (Inl (Error ''Invalid operation''), w)"
  | (defined) c t where "current_state w this = Some c" "table c x = Some t"
      "invoke x this w = (Inr (), moved this t w)"
proof (cases "current_state w this")
  case None
  then show ?thesis using unallocated invoke_unallocated by blast
next
  case (Some c)
  then show ?thesis
    using undefined invoke_undefined defined invoke_defined by (cases "table c x") blast+
qed

lemma permitted_table:
  "current_state w this = Some s \<Longrightarrow> permitted w this x \<longleftrightarrow> table s x \<noteq> None"
  by (cases "table s x") (auto simp: permitted_def invoke_undefined invoke_defined)

lemma rejected_table:
  "current_state w this = Some s \<Longrightarrow> rejected w this x \<longleftrightarrow> table s x = None"
  by (cases "table s x") (auto simp: rejected_def invoke_undefined invoke_defined)

text \<open>
  Every edge of the table leads from a state of the cycle to the one after it.
\<close>

lemma table_cycle_order:
  "table s x = Some t \<Longrightarrow>
   \<exists>i<4. s = cycle_order ! i \<and> t = cycle_order ! ((i + 1) mod 4)"
proof (cases s; cases x)
  assume "table s x = Some t" "s = IdleState" "x = InsertBread"
  then have "s = cycle_order ! 0 \<and> t = cycle_order ! ((0 + 1) mod 4)"
    by (simp add: cycle_order_def)
  then show ?thesis by (intro exI [of _ 0]) simp
next
  assume "table s x = Some t" "s = BreadInsertedState" "x = PullLever"
  then have "s = cycle_order ! 1 \<and> t = cycle_order ! ((1 + 1) mod 4)"
    by (simp add: cycle_order_def)
  then show ?thesis by (intro exI [of _ 1]) simp
next
  assume "table s x = Some t" "s = ToastingState" "x = EjectBread"
  then have "s = cycle_order ! 2 \<and> t = cycle_order ! ((2 + 1) mod 4)"
    by (simp add: cycle_order_def)
  then show ?thesis by (intro exI [of _ 2]) simp
next
  assume "table s x = Some t" "s = BreadEjectedState" "x = RemoveBread"
  then have "s = cycle_order ! 3 \<and> t = cycle_order ! ((3 + 1) mod 4)"
    by (simp add: cycle_order_def)
  then show ?thesis by (intro exI [of _ 3]) simp
qed simp_all

lemma table_concrete: "table c x = Some t \<Longrightarrow> concrete t"
  by (cases c; cases x) auto

subsection \<open>What a sequence of operations leaves alone\<close>

lemma frame_refl: "frame a w w"
  by (simp add: frame_def)

lemma frame_trans: "frame a w w' \<Longrightarrow> frame a w' w'' \<Longrightarrow> frame a w w''"
  by (auto simp: frame_def)

lemma frame_moved: "frame a w (moved a t w)"
  by (simp add: frame_def moved_def lookup_update_other)

lemma frame_current_state:
  assumes "frame a w w'" and "a \<noteq> b" and "current_state w b = Some c"
  shows "current_state w' b = Some c"
proof -
  from assms(3) obtain s where s: "lookup (toasters w) b = Some s"
    and c: "lookup (states w) s = Some c"
    by (auto simp: current_state_def split: option.splits)
  from assms(1) obtain ys where ys: "states w' = states w @ ys"
    by (auto simp: frame_def)
  from assms(1,2) s have "lookup (toasters w') b = Some s"
    by (simp add: frame_def)
  moreover from c ys have "lookup (states w') s = Some c"
    by (simp add: lookup_append_old)
  ultimately show ?thesis by (simp add: current_state_def)
qed

lemma run_append:
  "run (xs @ ys) a w =
     (case run xs a w of (Inl e, w') \<Rightarrow> (Inl e, w') | (Inr u, w') \<Rightarrow> run ys a w')"
  by (induction xs arbitrary: w) (auto split: prod.splits sum.splits)

lemma frame_run: "frame a w (snd (run xs a w))"
proof (induction xs arbitrary: w)
  case Nil
  show ?case by (simp add: frame_refl)
next
  case (Cons x xs)
  show ?case
  proof (cases rule: invoke_cases [of w a x])
    case unallocated
    then show ?thesis by (simp add: frame_refl)
  next
    case (undefined c)
    then show ?thesis by (simp add: frame_refl)
  next
    case (defined c t)
    from frame_moved Cons.IH have "frame a w (snd (run xs a (moved a t w)))"
      by (rule frame_trans)
    with defined show ?thesis by simp
  qed
qed

subsection \<open>The full cycle\<close>

lemma run_full_cycle:
  assumes "current_state w a = Some IdleState"
  shows "run full_cycle a w =
    (Inr (), moved a IdleState (moved a BreadEjectedState
               (moved a ToastingState (moved a BreadInsertedState w))))"
  using assms by (simp add: full_cycle_def invoke_defined current_state_moved_same)

lemma run_cycles:
  assumes "current_state w a = Some IdleState"
  shows "fst (run (concat (replicate n full_cycle)) a w) = Inr () \<and>
         current_state (snd (run (concat (replicate n full_cycle)) a w)) a = Some IdleState \<and>
         console (snd (run (concat (replicate n full_cycle)) a w))
           = console w @ concat (replicate n cycle_log)"
  using assms
proof (induction n arbitrary: w)
  case 0
  then show ?case by simp
next
  case (Suc n)
  let ?w1 = "moved a IdleState (moved a BreadEjectedState
               (moved a ToastingState (moved a BreadInsertedState w)))"
  have one: "run full_cycle a w = (Inr (), ?w1)"
    using Suc.prems by (rule run_full_cycle)
  have idle: "current_state ?w1 a = Some IdleState"
    using Suc.prems by (simp add: current_state_moved_same)
  have log: "console ?w1 = console w @ cycle_log"
    by (simp add: console_moved cycle_log_def)
  from Suc.IH [OF idle] one log show ?case
    by (simp add: run_append)
qed

subsection \<open>Construction\<close>

lemma Toaster_new_eq:
  "Toaster_new w =
     (length (toasters w),
      w\<lparr>states := states w @ [IdleState],
        toasters := toasters w @ [length (states w)],
        console := console w @ [Some IdleState]\<rparr>)"
  by (simp add: Toaster_new_def new_state_def logCurrentState_def current_state_def
      lookup_append_last Let_def)

lemma one_toaster_eq:
  "one_toaster = \<lparr>states = [IdleState], toasters = [0], console = [Some IdleState]\<rparr>"
  by (simp add: one_toaster_def Toaster_new_eq empty_world_def)

lemma one_toaster_state: "current_state one_toaster 0 = Some IdleState"
  by (simp add: one_toaster_eq current_state_def lookup_def)

lemma two_toasters_eq:
  "two_toasters w =
     (length (toasters w), Suc (length (toasters w)),
      w\<lparr>states := states w @ [IdleState, IdleState],
        toasters := toasters w @ [length (states w), Suc (length (states w))],
        console := console w @ [Some IdleState, Some IdleState]\<rparr>)"
  by (simp add: two_toasters_def Toaster_new_eq)

lemma two_toasters_states:
  assumes "two_toasters w = (a, b, w2)"
  shows "a \<noteq> b" and "current_state w2 a = Some IdleState"
    and "current_state w2 b = Some IdleState"
  using assms
  by (auto simp: two_toasters_eq current_state_def lookup_def nth_append)

subsection \<open>The invariant of the state field\<close>

lemma all_concrete_iff:
  "all_concrete w \<longleftrightarrow> (\<forall>this < length (toasters w). holds_concrete w this)"
  by (auto simp: all_concrete_def list_all_iff)

lemma holds_concrete_moved:
  assumes "holds_concrete w b" and "current_state w a = Some c" and "table c x = Some t"
  shows "holds_concrete (moved a t w) b"
proof (cases "a = b")
  case True
  with assms(2) have "current_state (moved a t w) b = Some t"
    by (simp add: current_state_moved_same)
  with assms(3) show ?thesis by (simp add: holds_concrete_def table_concrete)
next
  case False
  from assms(1) obtain d where d: "current_state w b = Some d" "concrete d"
    by (auto simp: holds_concrete_def split: option.splits)
  with False have "current_state (moved a t w) b = Some d"
    by (simp add: current_state_moved_other)
  with d(2) show ?thesis by (simp add: holds_concrete_def)
qed

lemma all_concrete_invoke:
  assumes "all_concrete w"
  shows "all_concrete (snd (invoke x a w))"
proof (cases rule: invoke_cases [of w a x])
  case unallocated
  with assms show ?thesis by simp
next
  case (undefined c)
  with assms show ?thesis by simp
next
  case (defined c t)
  have "length (toasters (moved a t w)) = length (toasters w)"
    by (simp add: moved_def)
  with assms defined(1,2) have "all_concrete (moved a t w)"
    by (simp add: all_concrete_iff holds_concrete_moved)
  with defined(3) show ?thesis by simp
qed

lemma all_concrete_new:
  assumes "all_concrete w"
  shows "all_concrete (snd (Toaster_new w))"
proof -
  let ?w' = "snd (Toaster_new w)"
  have len: "length (toasters ?w') = Suc (length (toasters w))"
    by (simp add: Toaster_new_eq)
  have new: "holds_concrete ?w' (length (toasters w))"
    by (simp add: holds_concrete_def Toaster_new_eq current_state_def lookup_append_last)
  have old: "holds_concrete ?w' b" if "b < length (toasters w)" for b
  proof -
    from assms that obtain d where d: "current_state w b = Some d" "concrete d"
      by (auto simp: all_concrete_iff holds_concrete_def split: option.splits)
    then have "current_state ?w' b = Some d"
      by (auto simp: Toaster_new_eq current_state_def lookup_append_old
          split: option.splits)
    with d(2) show ?thesis by (simp add: holds_concrete_def)
  qed
  show ?thesis
    unfolding all_concrete_iff len using new old by (auto simp: less_Suc_eq)
qed

lemma reachable_all_concrete: "reachable w \<Longrightarrow> all_concrete w"
proof (induction rule: reachable.induct)
  case start
  show ?case by (simp add: all_concrete_def empty_world_def)
next
  case (construct w)
  then show ?case by (simp add: all_concrete_new)
next
  case (operate w x this)
  then show ?case by (simp add: all_concrete_invoke)
qed

lemma all_concrete_state:
  assumes "all_concrete w" and "this < length (toasters w)"
  shows "\<exists>c. current_state w this = Some c \<and> concrete c \<and> c \<noteq> ToasterState"
proof -
  from assms have "holds_concrete w this"
    by (simp add: all_concrete_iff)
  then obtain c where c: "current_state w this = Some c" "concrete c"
    by (auto simp: holds_concrete_def split: option.splits)
  then have "c \<noteq> ToasterState" by auto
  with c show ?thesis by blast
qed

section \<open>The claims\<close>

text \<open>
  C1. For every state \<open>s\<close> and operation \<open>x\<close> for which the transition table defines an
  edge to \<open>t\<close> (\<open>IdleState\<close>/\<open>insertBread\<close> to \<open>BreadInsertedState\<close>,
  \<open>BreadInsertedState\<close>/\<open>pullLever\<close> to \<open>ToastingState\<close>, \<open>ToastingState\<close>/\<open>ejectBread\<close> to
  \<open>BreadEjectedState\<close>, \<open>BreadEjectedState\<close>/\<open>removeBread\<close> to \<open>IdleState\<close>), invoking \<open>x\<close>
  on a \<open>Toaster\<close> whose current state is \<open>s\<close> succeeds, and the \<open>Toaster\<close>'s new current
  state is \<open>t\<close>.
\<close>

theorem C1_defined_edge_succeeds:
  assumes "current_state w this = Some s" and "table s x = Some t"
  shows "fst (invoke x this w) = Inr () \<and>
         current_state (snd (invoke x this w)) this = Some t"
  using assms by (simp add: invoke_defined current_state_moved_same)

theorem C1_defined_edge_succeeds_witness:
  "current_state one_toaster 0 = Some IdleState \<and>
   table IdleState InsertBread = Some BreadInsertedState \<and>
   fst (invoke InsertBread 0 one_toaster) = Inr () \<and>
   current_state (snd (invoke InsertBread 0 one_toaster)) 0 = Some BreadInsertedState"
proof -
  have edge: "table IdleState InsertBread = Some BreadInsertedState" by simp
  from C1_defined_edge_succeeds [OF one_toaster_state edge] one_toaster_state edge
  show ?thesis by simp
qed

text \<open>
  C2. For every state \<open>s\<close> and operation \<open>x\<close> for which the table defines no edge,
  invoking \<open>x\<close> on a \<open>Toaster\<close> whose current state is \<open>s\<close> fails with the error
  \<open>Error("Invalid operation")\<close>, and the world after the call is the world before it:
  the \<open>Toaster\<close>'s current state is still \<open>s\<close>, and the failed call has had no partial
  effect on the store or the console either.
\<close>

theorem C2_undefined_edge_fails_unchanged:
  assumes "current_state w this = Some s" and "table s x = None"
  shows "fst (invoke x this w) = Inl (Error ''Invalid operation'') \<and>
         snd (invoke x this w) = w \<and>
         current_state (snd (invoke x this w)) this = Some s"
  using assms by (simp add: invoke_undefined)

theorem C2_undefined_edge_fails_unchanged_witness:
  "current_state one_toaster 0 = Some IdleState \<and>
   table IdleState PullLever = None \<and>
   fst (invoke PullLever 0 one_toaster) = Inl (Error ''Invalid operation'') \<and>
   snd (invoke PullLever 0 one_toaster) = one_toaster \<and>
   current_state (snd (invoke PullLever 0 one_toaster)) 0 = Some IdleState"
proof -
  have no_edge: "table IdleState PullLever = None" by simp
  from C2_undefined_edge_fails_unchanged [OF one_toaster_state no_edge]
    one_toaster_state no_edge
  show ?thesis by simp
qed

text \<open>
  C4. Constructing a \<open>Toaster\<close> in any world yields a new \<open>Toaster\<close> (a reference not
  allocated before) whose current state is \<open>IdleState\<close>, and construction adds exactly
  one line to the console, that initial state; this happens inside the constructor, so
  before any operation can be invoked on the new \<open>Toaster\<close>.
\<close>

theorem C4_fresh_toaster_is_idle_and_logged_once:
  "current_state (snd (Toaster_new w)) (fst (Toaster_new w)) = Some IdleState \<and>
   lookup (toasters w) (fst (Toaster_new w)) = None \<and>
   console (snd (Toaster_new w)) = console w @ [Some IdleState] \<and>
   length (console (snd (Toaster_new w))) = length (console w) + 1"
  by (simp add: Toaster_new_eq current_state_def lookup_append_last lookup_fresh)

text \<open>
  C5. Starting from a \<open>Toaster\<close> in \<open>IdleState\<close>, the calls \<open>insertBread\<close>, \<open>pullLever\<close>,
  \<open>ejectBread\<close>, \<open>removeBread\<close> in this order succeed one after the other, passing through
  \<open>BreadInsertedState\<close>, \<open>ToastingState\<close> and \<open>BreadEjectedState\<close> back to \<open>IdleState\<close>. For
  every \<open>n\<close>, running the four calls \<open>n\<close> times succeeds, leaves the \<open>Toaster\<close> in
  \<open>IdleState\<close> and adds exactly \<open>n * 4\<close> lines to the console (the four states of each
  pass, in order); no \<open>Toaster\<close> is created or removed, the field of every other \<open>Toaster\<close>
  is untouched, and the state objects allocated before are all still there.
\<close>

theorem C5_full_cycle_repeats:
  assumes "current_state w this = Some IdleState"
  shows "fst (run [InsertBread] this w) = Inr () \<and>
         current_state (snd (run [InsertBread] this w)) this = Some BreadInsertedState \<and>
         fst (run [InsertBread, PullLever] this w) = Inr () \<and>
         current_state (snd (run [InsertBread, PullLever] this w)) this = Some ToastingState \<and>
         fst (run [InsertBread, PullLever, EjectBread] this w) = Inr () \<and>
         current_state (snd (run [InsertBread, PullLever, EjectBread] this w)) this
           = Some BreadEjectedState \<and>
         fst (run (concat (replicate n full_cycle)) this w) = Inr () \<and>
         current_state (snd (run (concat (replicate n full_cycle)) this w)) this
           = Some IdleState \<and>
         console (snd (run (concat (replicate n full_cycle)) this w))
           = console w @ concat (replicate n cycle_log) \<and>
         length (console (snd (run (concat (replicate n full_cycle)) this w)))
           = length (console w) + n * 4 \<and>
         length (toasters (snd (run (concat (replicate n full_cycle)) this w)))
           = length (toasters w) \<and>
         (\<forall>t. t \<noteq> this \<longrightarrow>
            lookup (toasters (snd (run (concat (replicate n full_cycle)) this w))) t
              = lookup (toasters w) t) \<and>
         (\<exists>ys. states (snd (run (concat (replicate n full_cycle)) this w)) = states w @ ys)"
proof -
  let ?w' = "snd (run (concat (replicate n full_cycle)) this w)"
  have steps:
    "fst (run [InsertBread] this w) = Inr ()"
    "current_state (snd (run [InsertBread] this w)) this = Some BreadInsertedState"
    "fst (run [InsertBread, PullLever] this w) = Inr ()"
    "current_state (snd (run [InsertBread, PullLever] this w)) this = Some ToastingState"
    "fst (run [InsertBread, PullLever, EjectBread] this w) = Inr ()"
    "current_state (snd (run [InsertBread, PullLever, EjectBread] this w)) this
       = Some BreadEjectedState"
    using assms by (simp_all add: invoke_defined current_state_moved_same)
  have cycles: "fst (run (concat (replicate n full_cycle)) this w) = Inr ()"
    "current_state ?w' this = Some IdleState"
    "console ?w' = console w @ concat (replicate n cycle_log)"
    using run_cycles [OF assms, of n] by simp_all
  have "length (concat (replicate n cycle_log)) = n * 4"
    by (induction n) (simp_all add: cycle_log_def)
  with cycles(3) have count: "length (console ?w') = length (console w) + n * 4"
    by simp
  have "frame this w ?w'" by (rule frame_run)
  then have rest: "length (toasters ?w') = length (toasters w)"
    "\<forall>t. t \<noteq> this \<longrightarrow> lookup (toasters ?w') t = lookup (toasters w) t"
    "\<exists>ys. states ?w' = states w @ ys"
    by (simp_all add: frame_def)
  from steps cycles count rest show ?thesis by blast
qed

theorem C5_full_cycle_repeats_witness:
  "current_state one_toaster 0 = Some IdleState \<and>
   fst (run (concat (replicate 3 full_cycle)) 0 one_toaster) = Inr () \<and>
   current_state (snd (run (concat (replicate 3 full_cycle)) 0 one_toaster)) 0
     = Some IdleState \<and>
   length (console (snd (run (concat (replicate 3 full_cycle)) 0 one_toaster))) = 13"
proof -
  let ?w' = "snd (run (concat (replicate 3 full_cycle)) 0 one_toaster)"
  note cycles = C5_full_cycle_repeats [OF one_toaster_state, of 3]
  from cycles have ok: "fst (run (concat (replicate 3 full_cycle)) 0 one_toaster) = Inr ()"
    and idle: "current_state ?w' 0 = Some IdleState"
    and count: "length (console ?w') = length (console one_toaster) + 3 * 4"
    by blast+
  have "length (console one_toaster) = 1"
    by (simp add: one_toaster_eq)
  with count have "length (console ?w') = 13" by simp
  with one_toaster_state ok idle show ?thesis by blast
qed

text \<open>
  C6. Whatever the current state of a \<open>Toaster\<close>, at most one of the four operations is
  permitted; in each of the four concrete states exactly one is, and the other three
  are rejected. Every operation that is not permitted is rejected: it throws
  \<open>Error("Invalid operation")\<close> and leaves the world, so the state, as it was. Every
  permitted operation leads from a state of the list \<open>IdleState\<close>, \<open>BreadInsertedState\<close>,
  \<open>ToastingState\<close>, \<open>BreadEjectedState\<close> to the next one, the last leading back to the
  first; the four are distinct, so the transitions form one directed cycle of length 4
  and no transition skips a state.
\<close>

theorem C6_single_cycle:
  assumes "current_state w this = Some s"
  shows "length (filter (permitted w this) operations) \<le> 1 \<and>
         (concrete s \<longrightarrow>
            length (filter (permitted w this) operations) = 1 \<and>
            length (filter (rejected w this) operations) = 3) \<and>
         (\<forall>x. \<not> permitted w this x \<longrightarrow> rejected w this x) \<and>
         (\<forall>x. permitted w this x \<longrightarrow>
            (\<exists>i<4. s = cycle_order ! i \<and>
               current_state (snd (invoke x this w)) this
                 = Some (cycle_order ! ((i + 1) mod 4)))) \<and>
         distinct cycle_order \<and> length cycle_order = 4"
proof -
  have p: "permitted w this = (\<lambda>x. table s x \<noteq> None)"
    and r: "rejected w this = (\<lambda>x. table s x = None)"
    using assms by (auto simp: permitted_table rejected_table)
  have count: "length (filter (permitted w this) operations) \<le> 1"
    unfolding p by (cases s) (simp_all add: operations_def)
  have exact: "concrete s \<longrightarrow>
      length (filter (permitted w this) operations) = 1 \<and>
      length (filter (rejected w this) operations) = 3"
    unfolding p r by (cases s) (simp_all add: operations_def)
  have others: "\<forall>x. \<not> permitted w this x \<longrightarrow> rejected w this x"
    unfolding p r by simp
  have edges: "\<forall>x. permitted w this x \<longrightarrow>
      (\<exists>i<4. s = cycle_order ! i \<and>
         current_state (snd (invoke x this w)) this = Some (cycle_order ! ((i + 1) mod 4)))"
  proof (intro allI impI)
    fix x assume "permitted w this x"
    then obtain t where t: "table s x = Some t" unfolding p by auto
    with assms have "current_state (snd (invoke x this w)) this = Some t"
      by (simp add: invoke_defined current_state_moved_same)
    with table_cycle_order [OF t]
    show "\<exists>i<4. s = cycle_order ! i \<and>
        current_state (snd (invoke x this w)) this = Some (cycle_order ! ((i + 1) mod 4))"
      by auto
  qed
  have shape: "distinct cycle_order \<and> length cycle_order = 4"
    by (simp add: cycle_order_def)
  from count exact others edges shape show ?thesis by blast
qed

theorem C6_single_cycle_witness:
  "current_state one_toaster 0 = Some IdleState \<and> concrete IdleState \<and>
   permitted one_toaster 0 InsertBread \<and> \<not> permitted one_toaster 0 PullLever \<and>
   length (filter (permitted one_toaster 0) operations) = 1 \<and>
   length (filter (rejected one_toaster 0) operations) = 3 \<and>
   rejected one_toaster 0 PullLever"
proof -
  note cyc = C6_single_cycle [OF one_toaster_state]
  have yes: "permitted one_toaster 0 InsertBread"
    and no: "\<not> permitted one_toaster 0 PullLever"
    using one_toaster_state by (simp_all add: permitted_table)
  have conc: "concrete IdleState" by simp
  with cyc have "length (filter (permitted one_toaster 0) operations) = 1"
    and "length (filter (rejected one_toaster 0) operations) = 3"
    by blast+
  moreover from cyc no have "rejected one_toaster 0 PullLever" by blast
  ultimately show ?thesis using one_toaster_state conc yes no by blast
qed

text \<open>
  C7. For every call of an operation on a \<open>Toaster\<close>, in any world: when the call
  succeeds, exactly one line is added to the console, and it is the new current state of
  that \<open>Toaster\<close>; apart from that and the \<open>Toaster\<close>'s own field, the call only allocates
  the one new state object (no \<open>Toaster\<close> is created or removed and every other
  \<open>Toaster\<close>'s field is as before). When the call fails, nothing is added to the
  console, and the world is the one before the call.
\<close>

theorem C7_logged_once_on_success_only:
  "(fst (invoke x this w) = Inr () \<longrightarrow>
      console (snd (invoke x this w))
        = console w @ [current_state (snd (invoke x this w)) this] \<and>
      current_state (snd (invoke x this w)) this \<noteq> None \<and>
      length (toasters (snd (invoke x this w))) = length (toasters w) \<and>
      (\<forall>t. t \<noteq> this \<longrightarrow>
         lookup (toasters (snd (invoke x this w))) t = lookup (toasters w) t) \<and>
      (\<exists>c. states (snd (invoke x this w)) = states w @ [c])) \<and>
   (fst (invoke x this w) \<noteq> Inr () \<longrightarrow>
      console (snd (invoke x this w)) = console w \<and> snd (invoke x this w) = w)"
proof (cases rule: invoke_cases [of w this x])
  case unallocated
  then show ?thesis by simp
next
  case (undefined c)
  then show ?thesis by simp
next
  case (defined c t)
  have "current_state (moved this t w) this = Some t"
    using defined(1) by (rule current_state_moved_same)
  moreover have "console (moved this t w) = console w @ [Some t]"
    and "length (toasters (moved this t w)) = length (toasters w)"
    and "\<forall>b. b \<noteq> this \<longrightarrow> lookup (toasters (moved this t w)) b = lookup (toasters w) b"
    and "\<exists>c. states (moved this t w) = states w @ [c]"
    by (simp_all add: moved_def lookup_update_other)
  ultimately show ?thesis using defined(3) by simp
qed

theorem C7_logged_once_on_success_only_witness:
  "fst (invoke InsertBread 0 one_toaster) = Inr () \<and>
   console (snd (invoke InsertBread 0 one_toaster))
     = console one_toaster @ [current_state (snd (invoke InsertBread 0 one_toaster)) 0] \<and>
   fst (invoke PullLever 0 one_toaster) \<noteq> Inr () \<and>
   console (snd (invoke PullLever 0 one_toaster)) = console one_toaster"
proof -
  have yes: "fst (invoke InsertBread 0 one_toaster) = Inr ()"
    using one_toaster_state by (simp add: invoke_defined)
  have no: "fst (invoke PullLever 0 one_toaster) \<noteq> Inr ()"
    using one_toaster_state by (simp add: invoke_undefined)
  from yes C7_logged_once_on_success_only [of InsertBread 0 one_toaster]
  have "console (snd (invoke InsertBread 0 one_toaster))
      = console one_toaster @ [current_state (snd (invoke InsertBread 0 one_toaster)) 0]"
    by blast
  moreover from no C7_logged_once_on_success_only [of PullLever 0 one_toaster]
  have "console (snd (invoke PullLever 0 one_toaster)) = console one_toaster"
    by blast
  ultimately show ?thesis using yes no by blast
qed

text \<open>
  C8. A method of a state object with a defined edge, called on an object \<open>s\<close> of class
  \<open>c\<close>, depends on the world only through the class \<open>c\<close> and the operation: it returns a
  reference that was not allocated before, to a new object of the table's target class
  for \<open>(c, x)\<close>. The object \<open>s\<close> it was called on is unchanged, and so are the
  \<open>Toaster\<close>s and the console.
\<close>

theorem C8_state_method_allocates_and_keeps:
  assumes "lookup (states w) s = Some c" and "table c x = Some t"
  shows "state_method x c w = (Inr (length (states w)), w\<lparr>states := states w @ [t]\<rparr>) \<and>
         call (state_method x) s w = state_method x c w \<and>
         lookup (states w) (length (states w)) = None \<and>
         lookup (states (snd (call (state_method x) s w))) (length (states w)) = Some t \<and>
         lookup (states (snd (call (state_method x) s w))) s = Some c \<and>
         toasters (snd (call (state_method x) s w)) = toasters w \<and>
         console (snd (call (state_method x) s w)) = console w"
  using assms
  by (simp add: call_table state_method_table lookup_fresh lookup_append_last
      lookup_append_old)

theorem C8_state_method_allocates_and_keeps_witness:
  "lookup (states one_toaster) 0 = Some IdleState \<and>
   table IdleState InsertBread = Some BreadInsertedState \<and>
   call (state_method InsertBread) 0 one_toaster
     = (Inr 1, one_toaster\<lparr>states := [IdleState, BreadInsertedState]\<rparr>) \<and>
   lookup (states (snd (call (state_method InsertBread) 0 one_toaster))) 0 = Some IdleState"
proof -
  have obj: "lookup (states one_toaster) 0 = Some IdleState"
    by (simp add: one_toaster_eq lookup_def)
  have edge: "table IdleState InsertBread = Some BreadInsertedState" by simp
  note pure = C8_state_method_allocates_and_keeps [OF obj edge]
  from pure have "call (state_method InsertBread) 0 one_toaster
      = (Inr (length (states one_toaster)),
         one_toaster\<lparr>states := states one_toaster @ [BreadInsertedState]\<rparr>)"
    by simp
  moreover have "states one_toaster = [IdleState]" by (simp add: one_toaster_eq)
  ultimately have res: "call (state_method InsertBread) 0 one_toaster
      = (Inr 1, one_toaster\<lparr>states := [IdleState, BreadInsertedState]\<rparr>)"
    by simp
  from pure
  have "lookup (states (snd (call (state_method InsertBread) 0 one_toaster))) 0
      = Some IdleState"
    by blast
  with obj edge res show ?thesis by blast
qed

text \<open>
  C9. In every world a program can reach, the \<open>_state\<close> field of every \<open>Toaster\<close> refers
  to an allocated object of one of the four classes \<open>IdleState\<close>, \<open>BreadInsertedState\<close>,
  \<open>ToastingState\<close>, \<open>BreadEjectedState\<close>: never to an object of the abstract class
  \<open>ToasterState\<close>, never to nothing. The invariant holds of a \<open>Toaster\<close> as constructed, and
  construction and every operation, whether it succeeds or throws, keep it for every
  \<open>Toaster\<close> of the world.
\<close>

theorem C9_state_field_always_concrete:
  "(reachable w \<longrightarrow> all_concrete w) \<and>
   (all_concrete w \<longrightarrow>
      all_concrete (snd (Toaster_new w)) \<and>
      all_concrete (snd (invoke x this w)) \<and>
      (\<forall>t < length (toasters w).
         \<exists>c. current_state w t = Some c \<and> concrete c \<and> c \<noteq> ToasterState)) \<and>
   holds_concrete (snd (Toaster_new w)) (fst (Toaster_new w))"
proof -
  have "holds_concrete (snd (Toaster_new w)) (fst (Toaster_new w))"
    by (simp add: holds_concrete_def Toaster_new_eq current_state_def lookup_append_last)
  then show ?thesis
    using reachable_all_concrete all_concrete_new all_concrete_invoke all_concrete_state
    by blast
qed

theorem C9_state_field_always_concrete_witness:
  "reachable one_toaster \<and> all_concrete one_toaster \<and>
   all_concrete (snd (Toaster_new one_toaster)) \<and>
   all_concrete (snd (invoke PullLever 0 one_toaster)) \<and>
   0 < length (toasters one_toaster) \<and>
   (\<exists>c. current_state one_toaster 0 = Some c \<and> concrete c \<and> c \<noteq> ToasterState)"
proof -
  note inv = C9_state_field_always_concrete [of one_toaster PullLever 0]
  have r: "reachable one_toaster"
    unfolding one_toaster_def by (intro reachable.construct reachable.start)
  with inv have a: "all_concrete one_toaster" by blast
  have l: "0 < length (toasters one_toaster)"
    by (simp add: one_toaster_eq)
  from inv a have "all_concrete (snd (Toaster_new one_toaster))"
    and "all_concrete (snd (invoke PullLever 0 one_toaster))"
    and "\<forall>t < length (toasters one_toaster).
       \<exists>c. current_state one_toaster t = Some c \<and> concrete c \<and> c \<noteq> ToasterState"
    by blast+
  with r a l show ?thesis by blast
qed

text \<open>
  C10. Of two \<open>Toaster\<close>s constructed one after the other in any world, both start in
  \<open>IdleState\<close> and they are different objects. Driving the first through the full cycle
  of four operations succeeds, brings it back to \<open>IdleState\<close> and leaves the second in
  \<open>IdleState\<close>; more generally, whatever sequence of operations is invoked on one of the
  two, the current state of the other stays \<open>IdleState\<close>.
\<close>

theorem C10_instances_independent:
  "(case two_toasters w of
      (a, b, w2) \<Rightarrow>
        a \<noteq> b \<and>
        current_state w2 a = Some IdleState \<and> current_state w2 b = Some IdleState \<and>
        fst (run full_cycle a w2) = Inr () \<and>
        current_state (snd (run full_cycle a w2)) a = Some IdleState \<and>
        current_state (snd (run full_cycle a w2)) b = Some IdleState \<and>
        current_state (snd (run xs a w2)) b = Some IdleState \<and>
        current_state (snd (run xs b w2)) a = Some IdleState)"
proof -
  obtain a b w2 where two: "two_toasters w = (a, b, w2)"
    by (cases "two_toasters w") auto
  note st = two_toasters_states [OF two]
  have cyc: "fst (run full_cycle a w2) = Inr ()"
    "current_state (snd (run full_cycle a w2)) a = Some IdleState"
    using st(2) by (simp_all add: run_full_cycle current_state_moved_same)
  have other: "current_state (snd (run ys a w2)) b = Some IdleState" for ys
    using frame_run st(1) st(3) by (rule frame_current_state)
  have other': "current_state (snd (run ys b w2)) a = Some IdleState" for ys
    using frame_run st(1) [symmetric] st(2) by (rule frame_current_state)
  from st cyc other other' show ?thesis by (simp add: two)
qed

end
